theory Spec2Isabelle
  imports Main
begin

section \<open>Data model of the server package\<close>

text \<open>
  The development embeds \<^verbatim>\<open>server/server.go\<close>: the registry of pools kept by
  \<^verbatim>\<open>Server\<close>, the registration handler, the periodic sweep, the dispatcher loop and
  shutdown. Pointers to connections are addresses (natural numbers) into a store of
  connection objects; a Go pointer always refers to an allocated object, so the store is
  total. Pools are referenced from \<^verbatim>\<open>Server.pools\<close> only, each pointer once, so the
  slice of pool pointers is a list of pool values and an update through the pointer is an
  update of the list element.
\<close>

datatype conn_status = Idle | Busy | Closed

text \<open>
  Modelled from the spec: the type \<^verbatim>\<open>Connection\<close> (connection.go is not part of the
  sources at hand). A connection holds a tri-state status.
\<close>

record Connection =
  status :: conn_status

text \<open>
  A Go channel of connection pointers: the values offered by senders that wait on the
  channel, oldest first, and whether the channel has been closed.
\<close>

record conn_chan =
  pending :: "nat list"
  chan_closed :: bool

text \<open>
  Modelled from the spec: the type \<^verbatim>\<open>Pool\<close> (pool.go is not part of the sources at
  hand). The fields \<^verbatim>\<open>id\<close>, \<^verbatim>\<open>size\<close> and \<^verbatim>\<open>idle\<close> are the ones server.go reads and
  writes; \<^verbatim>\<open>connections\<close> is the live set of the spec.
\<close>

record Pool =
  pool_id :: string
  pool_size :: int
  connections :: "nat list"
  idle :: conn_chan

text \<open>
  Modelled from the spec: the configuration surface (config.go is not part of the sources
  at hand): the shared secret and the dispatch timeout that \<^verbatim>\<open>GetTimeout\<close> returns.
\<close>

record Config =
  SecretKey :: string
  Timeout :: int

definition GetTimeout :: "Config \<Rightarrow> int" where
  "GetTimeout cfg = Timeout cfg"

text \<open>Operations performed on the channel of a connection request, in order.\<close>

datatype chan_op = Send nat | Close

record ConnectionRequest =
  connection :: "chan_op list"

text \<open>
  The server: the pool list, the store of connection objects with its allocation
  pointer, the \<^verbatim>\<open>done\<close> channel (only ever closed), and the \<^verbatim>\<open>dispatcher\<close> channel:
  the requests of the handlers that wait to send on it, oldest first, whether it is
  closed, and the requests whose handler panicked when the channel was closed under it.
\<close>

record Server =
  pools :: "Pool list"
  conns :: "nat \<Rightarrow> Connection"
  next_conn :: nat
  done_closed :: bool
  dispatcher_sendq :: "ConnectionRequest list"
  dispatcher_closed :: bool
  sender_panics :: "ConnectionRequest list"

definition NewConnectionRequest :: "int \<Rightarrow> ConnectionRequest" where
  "NewConnectionRequest timeout = \<lparr> connection = [] \<rparr>"

definition NewServer :: "(nat \<Rightarrow> Connection) \<Rightarrow> Server" where
  "NewServer store =
     \<lparr> pools = [], conns = store, next_conn = 0, done_closed = False,
       dispatcher_sendq = [], dispatcher_closed = False, sender_panics = [] \<rparr>"

section \<open>Pool and Connection operations\<close>

text \<open>
  Modelled from the spec: \<^verbatim>\<open>Connection.Take\<close>, which attempts the transition from Idle
  to Busy and returns whether it succeeded.
\<close>

definition Take :: "nat \<Rightarrow> (nat \<Rightarrow> Connection) \<Rightarrow> bool \<times> (nat \<Rightarrow> Connection)" where
  "Take c store =
     (if status (store c) = Idle
      then (True, store(c := (store c)\<lparr> status := Busy \<rparr>))
      else (False, store))"

text \<open>
  Modelled from the spec: \<^verbatim>\<open>NewPool\<close>, a pool for an identity with an empty live set
  (the declared size has Go's zero value until the caller sets it).
\<close>

definition NewPool :: "string \<Rightarrow> Pool" where
  "NewPool ident =
     \<lparr> pool_id = ident, pool_size = 0, connections = [],
       idle = \<lparr> pending = [], chan_closed = False \<rparr> \<rparr>"

text \<open>
  Modelled from the spec: \<^verbatim>\<open>Pool.Register\<close>, which wraps the transport as a new Idle
  connection, adds it to the live set and signals readiness. The new connection is
  allocated at address \<open>a\<close>.
\<close>

definition Pool_Register :: "nat \<Rightarrow> Pool \<Rightarrow> (nat \<Rightarrow> Connection) \<Rightarrow> Pool \<times> (nat \<Rightarrow> Connection)" where
  "Pool_Register a p store =
     (p\<lparr> connections := connections p @ [a],
         idle := (idle p)\<lparr> pending := pending (idle p) @ [a] \<rparr> \<rparr>,
      store(a := \<lparr> status = Idle \<rparr>))"

text \<open>Modelled from the spec: \<^verbatim>\<open>Pool.IsEmpty\<close>, true iff the live set is empty.\<close>

definition Pool_IsEmpty :: "Pool \<Rightarrow> bool" where
  "Pool_IsEmpty p = (connections p = [])"

text \<open>
  Modelled from the spec: \<^verbatim>\<open>Pool.Shutdown\<close>, which closes every live connection and
  clears the live set.
\<close>

definition close_all :: "nat list \<Rightarrow> (nat \<Rightarrow> Connection) \<Rightarrow> (nat \<Rightarrow> Connection)" where
  "close_all cs store = (\<lambda>c. if c \<in> set cs then (store c)\<lparr> status := Closed \<rparr> else store c)"

definition Pool_Shutdown :: "Pool \<Rightarrow> (nat \<Rightarrow> Connection) \<Rightarrow> Pool \<times> (nat \<Rightarrow> Connection)" where
  "Pool_Shutdown p store = (p\<lparr> connections := [] \<rparr>, close_all (connections p) store)"

section \<open>Library functions used by the registration handler\<close>

text \<open>
  \<^verbatim>\<open>strings.Split(s, "_")\<close> for a one-byte separator: the fields between the
  separators; the result is never empty.
\<close>

fun Split :: "string \<Rightarrow> char \<Rightarrow> string list" where
  "Split [] sep = [[]]"
| "Split (x # xs) sep =
     (if x = sep then [] # Split xs sep
      else (case Split xs sep of
              [] \<Rightarrow> [[x]]
            | f # fs \<Rightarrow> (x # f) # fs))"

text \<open>
  \<^verbatim>\<open>strconv.Atoi\<close> on a 64-bit platform: an optional sign followed by one or more
  decimal digits, with a value that fits a signed 64-bit integer; anything else is an
  error.
\<close>

definition digit_val :: "char \<Rightarrow> nat option" where
  "digit_val c =
     (let n = (of_char c :: nat) in if 48 \<le> n \<and> n \<le> 57 then Some (n - 48) else None)"

fun parse_digits :: "string \<Rightarrow> nat \<Rightarrow> nat option" where
  "parse_digits [] acc = Some acc"
| "parse_digits (c # cs) acc =
     (case digit_val c of
        None \<Rightarrow> None
      | Some d \<Rightarrow> parse_digits cs (acc * 10 + d))"

definition Atoi :: "string \<Rightarrow> int option" where
  "Atoi s =
     (let neg = (s \<noteq> [] \<and> hd s = CHR ''-'');
          signed = (s \<noteq> [] \<and> (hd s = CHR ''-'' \<or> hd s = CHR ''+''));
          ds = (if signed then tl s else s)
      in if ds = [] then None
         else (case parse_digits ds 0 of
                 None \<Rightarrow> None
               | Some n \<Rightarrow>
                   if neg then (if n > 2 ^ 63 then None else Some (- int n))
                   else (if n \<ge> 2 ^ 63 then None else Some (int n))))"

section \<open>Registration\<close>

text \<open>
  What the handler for \<^verbatim>\<open>/register\<close> is given: the secret header, whether the websocket
  upgrade succeeds, and the first message read from the websocket (\<open>None\<close> when reading
  fails).
\<close>

record reg_request =
  secret_key :: string
  upgrade_ok :: bool
  greeting :: "string option"

text \<open>
  What the handler did: the error it wrote with \<^verbatim>\<open>wsp.ProxyErrorf\<close> (if any), whether it
  called \<^verbatim>\<open>ws.Close()\<close>, and whether it left by a run-time panic instead of returning.
\<close>

record reg_result =
  proxy_error :: "string option"
  ws_closed :: bool
  panicked :: bool

definition reg_error :: "string \<Rightarrow> bool \<Rightarrow> reg_result" where
  "reg_error msg closed = \<lparr> proxy_error = Some msg, ws_closed = closed, panicked = False \<rparr>"

definition reg_panic :: reg_result where
  "reg_panic = \<lparr> proxy_error = None, ws_closed = False, panicked = True \<rparr>"

definition reg_ok :: reg_result where
  "reg_ok = \<lparr> proxy_error = None, ws_closed = False, panicked = False \<rparr>"

text \<open>
  The loop over \<^verbatim>\<open>s.pools\<close> that looks for a pool with the identity: the index of the
  first such pool.
\<close>

fun find_pool :: "string \<Rightarrow> Pool list \<Rightarrow> nat option" where
  "find_pool ident [] = None"
| "find_pool ident (p # ps) =
     (if pool_id p = ident then Some 0
      else map_option Suc (find_pool ident ps))"

text \<open>
  Step 3 of \<^verbatim>\<open>Server.Register\<close>: look the pool up or create and append it, set its
  declared size, and add the connection to it.
\<close>

definition register_pool :: "string \<Rightarrow> int \<Rightarrow> Server \<Rightarrow> Server" where
  "register_pool ident n s =
     (let (ps, i) = (case find_pool ident (pools s) of
                       Some i \<Rightarrow> (pools s, i)
                     | None \<Rightarrow> (pools s @ [NewPool ident], length (pools s)));
          p = (ps ! i)\<lparr> pool_size := n \<rparr>;
          (p', store) = Pool_Register (next_conn s) p (conns s)
      in s\<lparr> pools := ps[i := p'], conns := store, next_conn := Suc (next_conn s) \<rparr>)"

definition Register :: "Config \<Rightarrow> reg_request \<Rightarrow> Server \<Rightarrow> reg_result \<times> Server" where
  "Register cfg r s =
     (if secret_key r \<noteq> SecretKey cfg then (reg_error ''Invalid X-SECRET-KEY'' False, s)
      else if \<not> upgrade_ok r then (reg_error ''HTTP upgrade error'' False, s)
      else (case greeting r of
              None \<Rightarrow> (reg_error ''Unable to read greeting message'' True, s)
            | Some g \<Rightarrow>
                (let split = Split g CHR ''_'' in
                 if length split < 2 then (reg_panic, s)
                 else (case Atoi (split ! 1) of
                         None \<Rightarrow> (reg_error ''Unable to parse greeting message'' True, s)
                       | Some n \<Rightarrow> (reg_ok, register_pool (split ! 0) n s)))))"

section \<open>The sweep\<close>

text \<open>
  The loop of \<^verbatim>\<open>Server.clean\<close>: an empty pool is shut down and dropped, any other pool
  is appended to the new list. (The idle and busy totals are computed for the log line
  only and are left out.)
\<close>

fun clean_loop :: "Pool list \<Rightarrow> Pool list \<Rightarrow> (nat \<Rightarrow> Connection) \<Rightarrow> Pool list \<times> (nat \<Rightarrow> Connection)" where
  "clean_loop [] kept store = (kept, store)"
| "clean_loop (p # ps) kept store =
     (if Pool_IsEmpty p
      then clean_loop ps kept (snd (Pool_Shutdown p store))
      else clean_loop ps (kept @ [p]) store)"

definition clean :: "Server \<Rightarrow> Server" where
  "clean s =
     (if pools s = [] then s
      else (let (kept, store) = clean_loop (pools s) [] (conns s)
            in s\<lparr> pools := kept, conns := store \<rparr>))"

section \<open>Shutdown\<close>

text \<open>How a function of the server was left: by returning, or by a run-time panic.\<close>

datatype 'a exit = Returned 'a | Panicked 'a

text \<open>The loop of \<^verbatim>\<open>Server.Shutdown\<close> that shuts every pool of the list down.\<close>

fun shutdown_pools :: "Pool list \<Rightarrow> (nat \<Rightarrow> Connection) \<Rightarrow> Pool list \<times> (nat \<Rightarrow> Connection)" where
  "shutdown_pools [] store = ([], store)"
| "shutdown_pools (p # ps) store =
     (let (p', store') = Pool_Shutdown p store;
          (ps', store'') = shutdown_pools ps store'
      in (p' # ps', store''))"

text \<open>
  \<^verbatim>\<open>Server.Shutdown\<close>. Closing a channel that is already closed panics. Closing the
  dispatcher channel makes every handler that waits to send on it panic (Go's semantics
  of \<^verbatim>\<open>close\<close> with blocked senders): their requests leave the queue unserved.
\<close>

definition Shutdown :: "Server \<Rightarrow> Server exit" where
  "Shutdown s =
     (if done_closed s then Panicked s
      else (let s1 = s\<lparr> done_closed := True \<rparr> in
            if dispatcher_closed s1 then Panicked s1
            else (let s2 = s1\<lparr> dispatcher_closed := True,
                             dispatcher_sendq := [],
                             sender_panics := sender_panics s1 @ dispatcher_sendq s1 \<rparr>;
                      (ps, store) = shutdown_pools (pools s2) (conns s2)
                  in Returned (clean (s2\<lparr> pools := ps, conns := store \<rparr>)))))"


section \<open>The dispatcher\<close>

text \<open>
  What the dispatcher observes from outside while it runs, one reading per look: the clock
  when it looks (\<^verbatim>\<open>context.WithTimeout\<close> reads it to fix the deadline, and the
  non-blocking receive on \<^verbatim>\<open>ctx.Done()\<close> succeeds once the clock has reached the deadline),
  and the pseudo-random number \<^verbatim>\<open>reflect.Select\<close> uses to choose among the cases that can
  proceed. A run of the dispatcher is driven by a list of readings; when the list is used
  up the run is still going on and has no result. Other goroutines do not act during a
  run: the run is sequential.
\<close>

record reading =
  now :: int
  pick :: nat

text \<open>
  A receive on a Go channel can proceed when a sender waits on it or when it is closed.
  \<^verbatim>\<open>reflect.Select\<close> over one receive case per pool (on the pool's \<^verbatim>\<open>idle\<close> channel)
  and a default case: when no receive can proceed the default case is chosen and \<^verbatim>\<open>ok\<close> is
  false; otherwise one of the ready cases is chosen; a receive from a closed channel with no
  waiting sender yields the zero value and \<^verbatim>\<open>ok\<close> false, any other receive takes the
  oldest waiting sender's value. The result of \<open>select_recv\<close> is the received connection
  when \<^verbatim>\<open>ok\<close> is true, and the pools with the consumed value gone.

  \<^verbatim>\<open>reflect.Select\<close> supports at most 65536 cases and panics when it is given more. The
  dispatcher passes one case per pool and the default case, and it has no \<^verbatim>\<open>recover\<close>:
  \<open>Select\<close> is \<open>None\<close> for that panic.
\<close>

definition can_recv :: "conn_chan \<Rightarrow> bool" where
  "can_recv ch = (pending ch \<noteq> [] \<or> chan_closed ch)"

definition ready_cases :: "Pool list \<Rightarrow> nat list" where
  "ready_cases ps = filter (\<lambda>i. can_recv (idle (ps ! i))) [0..<length ps]"

definition select_recv :: "nat \<Rightarrow> Pool list \<Rightarrow> nat option \<times> Pool list" where
  "select_recv k ps =
     (let ready = ready_cases ps in
      if ready = [] then (None, ps)
      else (let i = ready ! (k mod length ready); ch = idle (ps ! i) in
            case pending ch of
              [] \<Rightarrow> (None, ps)
            | c # cs \<Rightarrow> (Some c, ps[i := (ps ! i)\<lparr> idle := ch\<lparr> pending := cs \<rparr> \<rparr>])))"

definition Select :: "nat \<Rightarrow> Pool list \<Rightarrow> (nat option \<times> Pool list) option" where
  "Select k ps = (if 65536 < length ps + 1 then None else Some (select_recv k ps))"

text \<open>
  How loop \<^verbatim>\<open>L\<close> of \<^verbatim>\<open>dispatchConnections\<close> was left, in the words of the spec:
  \<open>TimedOut\<close> by \<^verbatim>\<open>break L\<close> on \<^verbatim>\<open>ctx.Done()\<close>, \<open>Unavailable\<close> by the \<^verbatim>\<open>break\<close> on an
  empty pool list, \<open>Matched c\<close> by the \<^verbatim>\<open>break\<close> after connection \<open>c\<close> was taken and sent.
  \<open>Crashed\<close>: the loop was not left by a \<^verbatim>\<open>break\<close>, the dispatcher goroutine died in the
  panic of \<^verbatim>\<open>reflect.Select\<close>.
\<close>

datatype outcome = Matched nat | TimedOut | Unavailable | Crashed

text \<open>
  The result of serving one request: how the loop was left, the clock reading of its last
  iteration, the readings not used, the server and the request afterwards.
\<close>

record scan_result =
  outcome :: outcome
  finished :: int
  rest :: "reading list"
  server :: Server
  request :: ConnectionRequest

text \<open>
  Loop \<^verbatim>\<open>L\<close>: one reading per iteration. An iteration checks the deadline, then the pool
  list, then selects (which may panic); without a received connection it goes round again; with one it calls
  \<^verbatim>\<open>Take\<close> and, on success, sends the connection on the request's channel and leaves the
  loop, otherwise goes round again.
\<close>

fun scan :: "int \<Rightarrow> reading list \<Rightarrow> Server \<Rightarrow> ConnectionRequest \<Rightarrow> scan_result option" where
  "scan deadline [] s req = None"
| "scan deadline (r # rs) s req =
     (if deadline \<le> now r
      then Some \<lparr> outcome = TimedOut, finished = now r, rest = rs, server = s, request = req \<rparr>
      else if pools s = []
      then Some \<lparr> outcome = Unavailable, finished = now r, rest = rs, server = s, request = req \<rparr>
      else (case Select (pick r) (pools s) of
              None \<Rightarrow>
                Some \<lparr> outcome = Crashed, finished = now r, rest = rs, server = s, request = req \<rparr>
            | Some (v, ps) \<Rightarrow>
                (let s1 = s\<lparr> pools := ps \<rparr> in
                 case v of
                   None \<Rightarrow> scan deadline rs s1 req
                 | Some c \<Rightarrow>
                     (let (ok, store) = Take c (conns s1); s2 = s1\<lparr> conns := store \<rparr> in
                      if ok
                      then Some \<lparr> outcome = Matched c, finished = now r, rest = rs, server = s2,
                                  request = req\<lparr> connection := connection req @ [Send c] \<rparr> \<rparr>
                      else scan deadline rs s2 req))))"

text \<open>
  The body of the outer loop for a request received from the dispatcher channel: the
  deadline is the clock at that moment plus the configured timeout, loop \<^verbatim>\<open>L\<close> runs, and
  the request's channel is closed. When the loop dies in a panic the close is never
  reached.
\<close>

definition dispatch_request :: "Config \<Rightarrow> reading list \<Rightarrow> Server \<Rightarrow> ConnectionRequest \<Rightarrow> scan_result option" where
  "dispatch_request cfg rs s req =
     (case rs of
        [] \<Rightarrow> None
      | r0 # rs' \<Rightarrow>
          (case scan (now r0 + GetTimeout cfg) rs' s req of
             None \<Rightarrow> None
           | Some res \<Rightarrow>
               (if outcome res = Crashed then Some res
                else Some (res\<lparr> request := (request res)\<lparr> connection := connection (request res) @ [Close] \<rparr> \<rparr>))))"

text \<open>
  The outer loop of \<^verbatim>\<open>dispatchConnections\<close>: it receives the requests of the waiting
  senders, oldest first, and serves each. With no sender waiting, the receive returns
  \<^verbatim>\<open>ok = false\<close> on a closed channel and the loop is left (\<open>Exited\<close>); on an open channel
  the dispatcher waits (\<open>Waiting\<close>). \<open>Scanning\<close>: the readings ran out inside loop \<^verbatim>\<open>L\<close>.
  \<open>Died\<close>: the goroutine died in a panic while serving a request; the requests still
  waiting are never received. \<open>served\<close> lists the requests received, with how each ended.
\<close>

datatype dispatcher_state = Exited | Waiting | Scanning | Died

record dispatch_run =
  state :: dispatcher_state
  final :: Server
  served :: "scan_result list"

fun serve :: "Config \<Rightarrow> ConnectionRequest list \<Rightarrow> reading list \<Rightarrow> Server \<Rightarrow> scan_result list \<Rightarrow> dispatch_run" where
  "serve cfg [] rs s acc =
     \<lparr> state = (if dispatcher_closed s then Exited else Waiting), final = s, served = acc \<rparr>"
| "serve cfg (req # q) rs s acc =
     (case dispatch_request cfg rs (s\<lparr> dispatcher_sendq := q \<rparr>) req of
        None \<Rightarrow> \<lparr> state = Scanning, final = s\<lparr> dispatcher_sendq := q \<rparr>, served = acc \<rparr>
      | Some res \<Rightarrow>
          (if outcome res = Crashed
           then \<lparr> state = Died, final = server res, served = acc @ [res] \<rparr>
           else serve cfg q (rest res) (server res) (acc @ [res])))"

definition dispatchConnections :: "Config \<Rightarrow> reading list \<Rightarrow> Server \<Rightarrow> dispatch_run" where
  "dispatchConnections cfg rs s = serve cfg (dispatcher_sendq s) rs s []"

text \<open>The connections offered on the idle channels of a pool list.\<close>

definition tokens :: "Pool list \<Rightarrow> nat set" where
  "tokens ps = (\<Union>p \<in> set ps. set (pending (idle p)))"

text \<open>
  An iteration of loop \<^verbatim>\<open>L\<close> leaves the loop at once when the deadline is reached,
  the pool list is empty, or there are too many select cases.
\<close>

definition leaves :: "int \<Rightarrow> reading \<Rightarrow> Server \<Rightarrow> bool" where
  "leaves deadline x s \<longleftrightarrow> deadline \<le> now x \<or> pools s = [] \<or> 65536 < length (pools s) + 1"

section \<open>The request handler\<close>

text \<open>
  \<^verbatim>\<open>Server.Request\<close> up to the point where the handler sends its request on the dispatcher
  channel and waits there: the destination header (with whether \<^verbatim>\<open>url.Parse\<close> accepts it),
  the check of the pool list, the new connection request, the send. A send on a closed
  channel panics.
\<close>

record proxy_request =
  destination :: string
  url_ok :: bool

datatype request_result = Proxy_Error string | Send_Panic | Submitted

definition Request :: "Config \<Rightarrow> proxy_request \<Rightarrow> Server \<Rightarrow> request_result \<times> Server" where
  "Request cfg r s =
     (if destination r = [] then (Proxy_Error ''Missing X-PROXY-DESTINATION header'', s)
      else if \<not> url_ok r then (Proxy_Error ''Unable to parse X-PROXY-DESTINATION header'', s)
      else if pools s = [] then (Proxy_Error ''No proxy available'', s)
      else (let request = NewConnectionRequest (GetTimeout cfg) in
            if dispatcher_closed s then (Send_Panic, s)
            else (Submitted, s\<lparr> dispatcher_sendq := dispatcher_sendq s @ [request] \<rparr>)))"

section \<open>The registry invariant\<close>

text \<open>At most one pool per identity: the identities of the pool list are distinct.\<close>

definition one_pool_per_identity :: "Server \<Rightarrow> bool" where
  "one_pool_per_identity s = distinct (map pool_id (pools s))"

section \<open>Auxiliary facts about the pool list\<close>

lemma find_pool_None: "find_pool i ps = None \<longleftrightarrow> i \<notin> pool_id ` set ps"
  by (induction ps) auto

lemma find_pool_Some:
  "find_pool i ps = Some k \<Longrightarrow> k < length ps \<and> pool_id (ps ! k) = i \<and> (\<forall>j<k. pool_id (ps ! j) \<noteq> i)"
proof (induction ps arbitrary: k)
  case Nil then show ?case by simp
next
  case (Cons p ps)
  show ?case
  proof (cases "pool_id p = i")
    case True with Cons.prems show ?thesis by simp
  next
    case False
    with Cons.prems obtain k' where k: "find_pool i ps = Some k'" "k = Suc k'" by auto
    from Cons.IH[OF k(1)] False k(2) show ?thesis by (auto simp: less_Suc_eq_0_disj)
  qed
qed

lemma close_all_Nil: "close_all [] store = store"
  by (simp add: close_all_def)

lemma clean_loop_filter:
  "clean_loop ps kept store = (kept @ filter (\<lambda>p. \<not> Pool_IsEmpty p) ps, store)"
  by (induction ps arbitrary: kept) (auto simp: Pool_IsEmpty_def Pool_Shutdown_def close_all_Nil)

lemma pools_clean: "pools (clean s) = filter (\<lambda>p. \<not> Pool_IsEmpty p) (pools s)"
  by (simp add: clean_def clean_loop_filter)

lemma conns_clean: "conns (clean s) = conns s"
  by (simp add: clean_def clean_loop_filter)

lemma pool_id_Pool_Register: "pool_id (fst (Pool_Register a p store)) = pool_id p"
  by (simp add: Pool_Register_def)

lemma pool_size_Pool_Register: "pool_size (fst (Pool_Register a p store)) = pool_size p"
  by (simp add: Pool_Register_def)

lemma pools_register_pool_found:
  assumes "find_pool ident (pools s) = Some i"
  shows "pools (register_pool ident n s) =
           (pools s)[i := fst (Pool_Register (next_conn s) ((pools s ! i)\<lparr> pool_size := n \<rparr>) (conns s))]"
  using assms by (simp add: register_pool_def split_beta Let_def)

lemma pools_register_pool_absent:
  assumes "find_pool ident (pools s) = None"
  shows "pools (register_pool ident n s) =
           pools s @ [fst (Pool_Register (next_conn s) ((NewPool ident)\<lparr> pool_size := n \<rparr>) (conns s))]"
  using assms by (simp add: register_pool_def split_beta Let_def)

lemma ids_register_pool:
  "map pool_id (pools (register_pool ident n s)) =
     (if ident \<in> pool_id ` set (pools s) then map pool_id (pools s)
      else map pool_id (pools s) @ [ident])"
proof (cases "find_pool ident (pools s)")
  case None
  then have "ident \<notin> pool_id ` set (pools s)" by (simp add: find_pool_None)
  then show ?thesis
    using pools_register_pool_absent[OF None, of n]
    by (simp add: pool_id_Pool_Register NewPool_def)
next
  case (Some i)
  from find_pool_Some[OF Some] have i: "i < length (pools s)" "pool_id (pools s ! i) = ident" by auto
  then have mem: "ident \<in> pool_id ` set (pools s)" by (metis imageI nth_mem)
  have "map pool_id ((pools s)[i := fst (Pool_Register (next_conn s) ((pools s ! i)\<lparr> pool_size := n \<rparr>) (conns s))])
        = (map pool_id (pools s))[i := ident]"
    by (simp add: map_update pool_id_Pool_Register i)
  also have "\<dots> = map pool_id (pools s)"
    using i by (metis list_update_id nth_map)
  finally show ?thesis using mem pools_register_pool_found[OF Some, of n] by simp
qed

lemma register_pool_inv:
  "one_pool_per_identity s \<Longrightarrow> one_pool_per_identity (register_pool ident n s)"
  unfolding one_pool_per_identity_def by (simp add: ids_register_pool)

lemma Register_cases:
  "snd (Register cfg r s) = s \<or> (\<exists>ident n. snd (Register cfg r s) = register_pool ident n s)"
  by (auto simp: Register_def Let_def split: option.splits)

lemma Register_inv:
  "one_pool_per_identity s \<Longrightarrow> one_pool_per_identity (snd (Register cfg r s))"
  using Register_cases[of cfg r s] register_pool_inv by metis

lemma clean_inv: "one_pool_per_identity s \<Longrightarrow> one_pool_per_identity (clean s)"
  unfolding one_pool_per_identity_def by (simp add: pools_clean distinct_map_filter)

lemma shutdown_pools_fst:
  "fst (shutdown_pools ps store) = map (\<lambda>p. p\<lparr> connections := [] \<rparr>) ps"
  by (induction ps arbitrary: store) (auto simp: Pool_Shutdown_def split_beta)

lemma shutdown_pools_snd:
  "snd (shutdown_pools ps store) = close_all (concat (map connections ps)) store"
  by (induction ps arbitrary: store) (auto simp: Pool_Shutdown_def split_beta close_all_def fun_eq_iff)

lemma pools_Shutdown:
  "Shutdown s = Returned s' \<Longrightarrow> pools s' = []"
  by (auto simp: Shutdown_def Let_def split_beta pools_clean shutdown_pools_fst
        filter_empty_conv Pool_IsEmpty_def split: if_splits)

lemma Shutdown_Panicked_pools:
  "Shutdown s = Panicked s' \<Longrightarrow> pools s' = pools s"
  by (auto simp: Shutdown_def Let_def split_beta split: if_splits)

lemma Shutdown_inv:
  "one_pool_per_identity s \<Longrightarrow> Shutdown s = Returned s' \<or> Shutdown s = Panicked s' \<Longrightarrow> one_pool_per_identity s'"
  using pools_Shutdown Shutdown_Panicked_pools unfolding one_pool_per_identity_def by fastforce

section \<open>Properties of registration\<close>

lemma Register_non_numeric_size:
  assumes "secret_key r = SecretKey cfg" "upgrade_ok r" "greeting r = Some g"
    and "Split g CHR ''_'' = ident # fld # flds" "Atoi fld = None"
  shows "Register cfg r s = (reg_error ''Unable to parse greeting message'' True, s)"
  using assms by (simp add: Register_def)

lemma Register_three_fields_accepted:
  "Register cfg \<lparr> secret_key = SecretKey cfg, upgrade_ok = True, greeting = Some ''a_3_x'' \<rparr> s
     = (reg_ok, register_pool ''a'' 3 s)"
  by (simp add: Register_def Atoi_def digit_val_def)

text \<open>
  Claim C1. A malformed greeting (wrong field count, or a size field that is not a number)
  should abort the handshake with an error, close the upgraded transport and leave the
  pools alone. For the greeting \<^verbatim>\<open>agent1\<close>, which has no separator, the handler indexes
  the second field of a one-element slice: it panics, writes no error and never calls
  \<^verbatim>\<open>ws.Close()\<close>. The pools are unchanged.
\<close>

theorem Register_greeting_without_separator_panics:
  "Register cfg \<lparr> secret_key = SecretKey cfg, upgrade_ok = True, greeting = Some ''agent1'' \<rparr> s
     = (\<lparr> proxy_error = None, ws_closed = False, panicked = True \<rparr>, s)"
  by (simp add: Register_def reg_panic_def)

text \<open>
  Claim C7. Registration behaves as lookup-or-create: for a well-formed greeting with
  identity \<open>ident\<close> and size \<open>n\<close>, an existing pool of that identity is reused (the list
  keeps its length and identities, every other pool is untouched), otherwise a new pool
  of that identity is appended; in both cases the pool's declared size is \<open>n\<close> afterwards
  and the new connection joins that pool.
\<close>

theorem Register_lookup_or_create:
  assumes "secret_key r = SecretKey cfg" and "upgrade_ok r" and "greeting r = Some g"
    and "Split g CHR ''_'' = ident # fld # flds" and "Atoi fld = Some n"
  shows "fst (Register cfg r s) = reg_ok \<and>
         (let ps = pools s; ps' = pools (snd (Register cfg r s)) in
          (case find_pool ident ps of
             Some i \<Rightarrow>
               ident \<in> pool_id ` set ps \<and> length ps' = length ps \<and>
               map pool_id ps' = map pool_id ps \<and>
               pool_id (ps' ! i) = ident \<and> pool_size (ps' ! i) = n \<and>
               connections (ps' ! i) = connections (ps ! i) @ [next_conn s] \<and>
               (\<forall>j<length ps. j \<noteq> i \<longrightarrow> ps' ! j = ps ! j)
           | None \<Rightarrow>
               ident \<notin> pool_id ` set ps \<and> length ps' = Suc (length ps) \<and>
               take (length ps) ps' = ps \<and>
               pool_id (last ps') = ident \<and> pool_size (last ps') = n \<and>
               connections (last ps') = [next_conn s]))"
proof -
  have R: "Register cfg r s = (reg_ok, register_pool ident n s)"
    using assms by (simp add: Register_def)
  show ?thesis
  proof (cases "find_pool ident (pools s)")
    case None
    then have "ident \<notin> pool_id ` set (pools s)" by (simp add: find_pool_None)
    then show ?thesis
      using None pools_register_pool_absent[OF None, of n]
      by (simp add: R Pool_Register_def NewPool_def)
  next
    case (Some i)
    from find_pool_Some[OF Some] have i: "i < length (pools s)" "pool_id (pools s ! i) = ident" by auto
    then have mem: "ident \<in> pool_id ` set (pools s)" by (metis imageI nth_mem)
    have ids: "map pool_id (pools (register_pool ident n s)) = map pool_id (pools s)"
      using mem by (simp add: ids_register_pool)
    show ?thesis
      using Some i mem ids pools_register_pool_found[OF Some, of n]
      by (simp add: R Pool_Register_def)
  qed
qed

theorem Register_lookup_or_create_witness:
  "(let ps' = pools (snd (Register \<lparr> SecretKey = ''k'', Timeout = 30 \<rparr>
            \<lparr> secret_key = ''k'', upgrade_ok = True, greeting = Some ''agent1_3'' \<rparr>
            (NewServer (\<lambda>_. \<lparr> status = Closed \<rparr>))))
    in length ps' = 1 \<and> pool_id (last ps') = ''agent1'' \<and> pool_size (last ps') = 3 \<and>
       connections (last ps') = [0])"
proof -
  let ?cfg = "\<lparr> SecretKey = ''k'', Timeout = 30 \<rparr>"
  let ?r = "\<lparr> secret_key = ''k'', upgrade_ok = True, greeting = Some ''agent1_3'' \<rparr>"
  let ?s = "NewServer (\<lambda>_. \<lparr> status = Closed \<rparr>)"
  have a: "secret_key ?r = SecretKey ?cfg" "upgrade_ok ?r" "greeting ?r = Some ''agent1_3''"
    "Split ''agent1_3'' CHR ''_'' = ''agent1'' # ''3'' # []" "Atoi ''3'' = Some 3"
    by (simp_all add: Atoi_def digit_val_def)
  have e: "pools ?s = []" "next_conn ?s = 0" by (simp_all add: NewServer_def)
  from Register_lookup_or_create[OF a, of ?s]
  show ?thesis unfolding e by (simp add: Let_def)
qed

section \<open>Properties of the registry\<close>

text \<open>
  Claim C8. At most one pool per identity: the invariant holds for a new server and is
  preserved by every registration (whatever its outcome), by every sweep and by shutdown
  (whether it returns or panics).
\<close>

theorem one_pool_per_identity_invariant:
  "one_pool_per_identity (NewServer store) \<and>
   (one_pool_per_identity s \<longrightarrow>
      one_pool_per_identity (snd (Register cfg r s)) \<and>
      one_pool_per_identity (clean s) \<and>
      (case Shutdown s of Returned s' \<Rightarrow> one_pool_per_identity s'
                        | Panicked s' \<Rightarrow> one_pool_per_identity s'))"
proof -
  have "one_pool_per_identity (NewServer store)"
    by (simp add: one_pool_per_identity_def NewServer_def)
  moreover have "one_pool_per_identity s \<Longrightarrow>
      (case Shutdown s of Returned s' \<Rightarrow> one_pool_per_identity s'
                        | Panicked s' \<Rightarrow> one_pool_per_identity s')"
    using Shutdown_inv[of s] by (cases "Shutdown s") auto
  ultimately show ?thesis using Register_inv clean_inv by blast
qed

theorem one_pool_per_identity_invariant_witness:
  "(let s = \<lparr> pools = [\<lparr> pool_id = ''A'', pool_size = 1, connections = [0],
                          idle = \<lparr> pending = [0], chan_closed = False \<rparr> \<rparr>,
                        \<lparr> pool_id = ''B'', pool_size = 2, connections = [],
                          idle = \<lparr> pending = [], chan_closed = False \<rparr> \<rparr>],
              conns = (\<lambda>_. \<lparr> status = Idle \<rparr>), next_conn = 1, done_closed = False,
              dispatcher_sendq = [], dispatcher_closed = False, sender_panics = [] \<rparr>
    in one_pool_per_identity s \<and>
       one_pool_per_identity (snd (Register \<lparr> SecretKey = ''k'', Timeout = 30 \<rparr>
          \<lparr> secret_key = ''k'', upgrade_ok = True, greeting = Some ''B_4'' \<rparr> s)) \<and>
       one_pool_per_identity (clean s))"
proof -
  let ?s = "\<lparr> pools = [\<lparr> pool_id = ''A'', pool_size = 1, connections = [0],
                          idle = \<lparr> pending = [0], chan_closed = False \<rparr> \<rparr>,
                        \<lparr> pool_id = ''B'', pool_size = 2, connections = [],
                          idle = \<lparr> pending = [], chan_closed = False \<rparr> \<rparr>],
              conns = (\<lambda>_. \<lparr> status = Idle \<rparr>), next_conn = 1, done_closed = False,
              dispatcher_sendq = [], dispatcher_closed = False, sender_panics = [] \<rparr>"
  have h: "one_pool_per_identity ?s" by (simp add: one_pool_per_identity_def)
  from one_pool_per_identity_invariant[of "\<lambda>_. \<lparr> status = Idle \<rparr>" ?s
      "\<lparr> SecretKey = ''k'', Timeout = 30 \<rparr>"
      "\<lparr> secret_key = ''k'', upgrade_ok = True, greeting = Some ''B_4'' \<rparr>"] h
  show ?thesis unfolding Let_def by blast
qed

text \<open>
  Claim C9. The sweep removes exactly the empty pools and keeps every other pool, in
  order: a pool with a live connection is never removed, no empty pool remains, and the
  removed pools are shut down (they hold no live connection, so shutting them down closes
  nothing and the connection store is unchanged).
\<close>

theorem clean_removes_exactly_the_empty_pools:
  "pools (clean s) = filter (\<lambda>p. \<not> Pool_IsEmpty p) (pools s) \<and>
   (\<forall>p \<in> set (pools s). \<not> Pool_IsEmpty p \<longrightarrow> p \<in> set (pools (clean s))) \<and>
   (\<forall>p \<in> set (pools s). Pool_IsEmpty p \<longrightarrow>
        p \<notin> set (pools (clean s)) \<and> snd (Pool_Shutdown p (conns (clean s))) = conns (clean s)) \<and>
   (\<forall>p \<in> set (pools (clean s)). \<not> Pool_IsEmpty p \<and> p \<in> set (pools s)) \<and>
   conns (clean s) = conns s"
  by (auto simp: pools_clean conns_clean Pool_Shutdown_def Pool_IsEmpty_def close_all_Nil)

theorem clean_removes_exactly_the_empty_pools_witness:
  "pools (clean \<lparr> pools = [\<lparr> pool_id = ''A'', pool_size = 1, connections = [0],
                          idle = \<lparr> pending = [0], chan_closed = False \<rparr> \<rparr>,
                        \<lparr> pool_id = ''B'', pool_size = 2, connections = [],
                          idle = \<lparr> pending = [], chan_closed = False \<rparr> \<rparr>],
              conns = (\<lambda>_. \<lparr> status = Idle \<rparr>), next_conn = 1, done_closed = False,
              dispatcher_sendq = [], dispatcher_closed = False, sender_panics = [] \<rparr>)
   = [\<lparr> pool_id = ''A'', pool_size = 1, connections = [0],
        idle = \<lparr> pending = [0], chan_closed = False \<rparr> \<rparr>]"
  using clean_removes_exactly_the_empty_pools[of "\<lparr> pools = [\<lparr> pool_id = ''A'', pool_size = 1, connections = [0],
                          idle = \<lparr> pending = [0], chan_closed = False \<rparr> \<rparr>,
                        \<lparr> pool_id = ''B'', pool_size = 2, connections = [],
                          idle = \<lparr> pending = [], chan_closed = False \<rparr> \<rparr>],
              conns = (\<lambda>_. \<lparr> status = Idle \<rparr>), next_conn = 1, done_closed = False,
              dispatcher_sendq = [], dispatcher_closed = False, sender_panics = [] \<rparr>"]
  by (simp add: Pool_IsEmpty_def)

section \<open>Properties of the dispatcher\<close>

lemma Take_False: "fst (Take c store) = False \<Longrightarrow> snd (Take c store) = store"
  by (simp add: Take_def split: if_splits)

lemma Take_True:
  "fst (Take c store) = True \<Longrightarrow> status (store c) = Idle \<and> status (snd (Take c store) c) = Busy"
  by (simp add: Take_def split: if_splits)

lemma select_recv_Some:
  assumes "select_recv k ps = (Some c, ps')"
  shows "c \<in> tokens ps \<and> tokens ps' \<subseteq> tokens ps \<and> length ps' = length ps"
proof -
  let ?ready = "ready_cases ps"
  let ?i = "?ready ! (k mod length ?ready)"
  from assms have ne: "?ready \<noteq> []" by (auto simp: select_recv_def Let_def)
  then have "?i \<in> set ?ready" by simp
  then have i: "?i < length ps" by (simp add: ready_cases_def)
  from assms ne obtain cs where p: "pending (idle (ps ! ?i)) = c # cs"
    and ps': "ps' = ps[?i := (ps ! ?i)\<lparr> idle := (idle (ps ! ?i))\<lparr> pending := cs \<rparr> \<rparr>]"
    by (auto simp: select_recv_def Let_def split: list.splits)
  have "c \<in> tokens ps" unfolding tokens_def using i p
    by (metis UN_I list.set_intros(1) nth_mem)
  moreover have "tokens ps' \<subseteq> tokens ps"
  proof
    fix t assume "t \<in> tokens ps'"
    then obtain q where q: "q \<in> set ps'" "t \<in> set (pending (idle q))" by (auto simp: tokens_def)
    from q(1) ps' have "q \<in> set ps \<or> q = (ps ! ?i)\<lparr> idle := (idle (ps ! ?i))\<lparr> pending := cs \<rparr> \<rparr>"
      using set_update_subset_insert by fastforce
    then show "t \<in> tokens ps"
    proof
      assume "q \<in> set ps" with q(2) show ?thesis by (auto simp: tokens_def)
    next
      assume "q = (ps ! ?i)\<lparr> idle := (idle (ps ! ?i))\<lparr> pending := cs \<rparr> \<rparr>"
      with q(2) have "t \<in> set (pending (idle (ps ! ?i)))" by (simp add: p)
      with i show ?thesis unfolding tokens_def by (metis UN_I nth_mem)
    qed
  qed
  ultimately show ?thesis using ps' by simp
qed

lemma select_recv_None: "select_recv k ps = (None, ps') \<Longrightarrow> ps' = ps"
  by (auto simp: select_recv_def Let_def split: list.splits if_splits)

lemma select_recv_length: "select_recv k ps = (v, ps') \<Longrightarrow> length ps' = length ps"
  by (auto simp: select_recv_def Let_def split: list.splits if_splits)

lemma scan_exit:
  "leaves deadline x s \<Longrightarrow>
     scan deadline (x # rs) s req =
       Some \<lparr> outcome = (if deadline \<le> now x then TimedOut
                          else if pools s = [] then Unavailable else Crashed),
              finished = now x, rest = rs, server = s, request = req \<rparr>"
  by (auto simp: leaves_def Select_def)

lemma scan_round:
  assumes "\<not> leaves deadline x s" and "select_recv (pick x) (pools s) = (v, ps)"
  shows "scan deadline (x # rs) s req =
           (case v of
              None \<Rightarrow> scan deadline rs (s\<lparr> pools := ps \<rparr>) req
            | Some c \<Rightarrow>
                if fst (Take c (conns s))
                then Some \<lparr> outcome = Matched c, finished = now x, rest = rs,
                            server = s\<lparr> pools := ps, conns := snd (Take c (conns s)) \<rparr>,
                            request = req\<lparr> connection := connection req @ [Send c] \<rparr> \<rparr>
                else scan deadline rs (s\<lparr> pools := ps \<rparr>) req)"
  using assms Take_False[of _ "conns s"]
  by (auto simp: leaves_def Select_def split_beta split: option.splits)

declare scan.simps(2) [simp del]

lemma scan_total:
  "r \<in> set rs \<Longrightarrow> deadline \<le> now r \<Longrightarrow> \<exists>res. scan deadline rs s req = Some res"
proof (induction rs arbitrary: s)
  case Nil then show ?case by simp
next
  case (Cons x rs)
  show ?case
  proof (cases "leaves deadline x s")
    case True then show ?thesis by (simp only: scan_exit) blast
  next
    case False
    then have "\<not> deadline \<le> now x" by (simp add: leaves_def)
    with Cons.prems have "r \<in> set rs" by auto
    from Cons.IH[OF this Cons.prems(2)] have ih: "\<And>s'. \<exists>res. scan deadline rs s' req = Some res" .
    obtain v ps where sel: "select_recv (pick x) (pools s) = (v, ps)"
      by (cases "select_recv (pick x) (pools s)")
    show ?thesis unfolding scan_round[OF False sel] using ih by (auto split: option.splits)
  qed
qed

lemma scan_log:
  "scan deadline rs s req = Some res \<Longrightarrow>
     (\<exists>c. outcome res = Matched c \<and> connection (request res) = connection req @ [Send c]) \<or>
     ((outcome res = TimedOut \<or> outcome res = Unavailable \<or> outcome res = Crashed) \<and>
      request res = req)"
proof (induction rs arbitrary: s)
  case Nil then show ?case by simp
next
  case (Cons x rs)
  show ?case
  proof (cases "leaves deadline x s")
    case True with Cons.prems show ?thesis by (auto simp: scan_exit split: if_splits)
  next
    case False
    obtain v ps where sel: "select_recv (pick x) (pools s) = (v, ps)"
      by (cases "select_recv (pick x) (pools s)")
    from Cons.prems[unfolded scan_round[OF False sel]] Cons.IH show ?thesis
      by (auto split: option.splits if_splits)
  qed
qed

lemma scan_conns:
  "scan deadline rs s req = Some res \<Longrightarrow>
     (case outcome res of
        Matched c \<Rightarrow> Take c (conns s) = (True, conns (server res))
      | _ \<Rightarrow> conns (server res) = conns s)"
proof (induction rs arbitrary: s)
  case Nil then show ?case by simp
next
  case (Cons x rs)
  show ?case
  proof (cases "leaves deadline x s")
    case True with Cons.prems show ?thesis by (auto simp: scan_exit)
  next
    case False
    obtain v ps where sel: "select_recv (pick x) (pools s) = (v, ps)"
      by (cases "select_recv (pick x) (pools s)")
    note step = Cons.prems[unfolded scan_round[OF False sel]]
    show ?thesis
    proof (cases "\<exists>c. v = Some c \<and> fst (Take c (conns s))")
      case True
      then obtain c where c: "v = Some c" "fst (Take c (conns s))" by blast
      with step have "res = \<lparr> outcome = Matched c, finished = now x, rest = rs,
                      server = s\<lparr> pools := ps, conns := snd (Take c (conns s)) \<rparr>,
                      request = req\<lparr> connection := connection req @ [Send c] \<rparr> \<rparr>"
        by simp
      with c show ?thesis by (simp add: prod_eq_iff)
    next
      case F: False
      with step have "scan deadline rs (s\<lparr> pools := ps \<rparr>) req = Some res"
        by (auto split: option.splits if_splits)
      from Cons.IH[OF this] show ?thesis by (simp split: outcome.splits)
    qed
  qed
qed

lemma scan_token:
  "scan deadline rs s req = Some res \<Longrightarrow> outcome res = Matched c \<Longrightarrow> c \<in> tokens (pools s)"
proof (induction rs arbitrary: s)
  case Nil then show ?case by simp
next
  case (Cons x rs)
  show ?case
  proof (cases "leaves deadline x s")
    case True with Cons.prems show ?thesis by (auto simp: scan_exit split: if_splits)
  next
    case False
    obtain v ps where sel: "select_recv (pick x) (pools s) = (v, ps)"
      by (cases "select_recv (pick x) (pools s)")
    note step = Cons.prems(1)[unfolded scan_round[OF False sel]]
    show ?thesis
    proof (cases v)
      case None
      with step have "scan deadline rs (s\<lparr> pools := ps \<rparr>) req = Some res" by simp
      from Cons.IH[OF this Cons.prems(2)] select_recv_None sel None show ?thesis by auto
    next
      case (Some c')
      note S = select_recv_Some[OF sel[unfolded Some]]
      show ?thesis
      proof (cases "fst (Take c' (conns s))")
        case True
        with step Some Cons.prems(2) have "c = c'" by auto
        with S show ?thesis by simp
      next
        case F: False
        with step Some have "scan deadline rs (s\<lparr> pools := ps \<rparr>) req = Some res" by simp
        from Cons.IH[OF this Cons.prems(2)] S show ?thesis by auto
      qed
    qed
  qed
qed

lemma scan_prefix:
  "scan deadline rs s req = Some res \<Longrightarrow>
     \<exists>pre x. rs = pre @ x # rest res \<and> finished res = now x \<and>
             (\<forall>y \<in> set pre. now y < deadline) \<and>
             (outcome res = TimedOut \<longleftrightarrow> deadline \<le> now x)"
proof (induction rs arbitrary: s)
  case Nil then show ?case by simp
next
  case (Cons x rs)
  have last_one: "rest res = rs \<Longrightarrow> finished res = now x \<Longrightarrow>
      (outcome res = TimedOut \<longleftrightarrow> deadline \<le> now x) \<Longrightarrow> ?case"
  proof -
    assume "rest res = rs" "finished res = now x" "outcome res = TimedOut \<longleftrightarrow> deadline \<le> now x"
    then have "x # rs = [] @ x # rest res \<and> finished res = now x \<and>
        (outcome res = TimedOut \<longleftrightarrow> deadline \<le> now x)" by simp
    then show ?case by (metis empty_iff list.set(1))
  qed
  show ?case
  proof (cases "leaves deadline x s")
    case True with Cons.prems show ?thesis
      by (intro last_one) (auto simp: scan_exit leaves_def split: if_splits)
  next
    case False
    then have nd: "\<not> deadline \<le> now x" by (simp add: leaves_def)
    obtain v ps where sel: "select_recv (pick x) (pools s) = (v, ps)"
      by (cases "select_recv (pick x) (pools s)")
    note step = Cons.prems[unfolded scan_round[OF False sel]]
    show ?thesis
    proof (cases "\<exists>c. v = Some c \<and> fst (Take c (conns s))")
      case True
      with step nd show ?thesis by (intro last_one) auto
    next
      case F: False
      with step have "scan deadline rs (s\<lparr> pools := ps \<rparr>) req = Some res"
        by (auto split: option.splits if_splits)
      from Cons.IH[OF this] obtain pre y where
        p: "rs = pre @ y # rest res" "finished res = now y" "\<forall>z \<in> set pre. now z < deadline"
           "outcome res = TimedOut \<longleftrightarrow> deadline \<le> now y" by blast
      have "x # rs = (x # pre) @ y # rest res" using p(1) by simp
      moreover have "\<forall>z \<in> set (x # pre). now z < deadline" using p(3) nd by auto
      ultimately show ?thesis using p(2,4) by blast
    qed
  qed
qed


lemma scan_no_crash:
  "scan deadline rs s req = Some res \<Longrightarrow> length (pools s) < 65536 \<Longrightarrow> outcome res \<noteq> Crashed"
proof (induction rs arbitrary: s)
  case Nil then show ?case by simp
next
  case (Cons x rs)
  show ?case
  proof (cases "leaves deadline x s")
    case True with Cons.prems show ?thesis by (auto simp: scan_exit leaves_def split: if_splits)
  next
    case False
    obtain v ps where sel: "select_recv (pick x) (pools s) = (v, ps)"
      by (cases "select_recv (pick x) (pools s)")
    note step = Cons.prems(1)[unfolded scan_round[OF False sel]]
    have len: "length (pools (s\<lparr> pools := ps \<rparr>)) < 65536"
      using select_recv_length[OF sel] Cons.prems(2) by simp
    show ?thesis
    proof (cases "\<exists>c. v = Some c \<and> fst (Take c (conns s))")
      case True with step show ?thesis by auto
    next
      case F: False
      with step have "scan deadline rs (s\<lparr> pools := ps \<rparr>) req = Some res"
        by (auto split: option.splits if_splits)
      from Cons.IH[OF this len] show ?thesis .
    qed
  qed
qed

lemma dispatch_request_Some:
  "dispatch_request cfg (r0 # rs) s req = Some res \<longleftrightarrow>
     (\<exists>res0. scan (now r0 + GetTimeout cfg) rs s req = Some res0 \<and>
             res = (if outcome res0 = Crashed then res0
                    else res0\<lparr> request := (request res0)\<lparr> connection := connection (request res0) @ [Close] \<rparr> \<rparr>))"
  by (auto simp: dispatch_request_def split: option.splits)

lemmas ev = dispatch_request_def scan.simps(2) GetTimeout_def Select_def select_recv_def
  ready_cases_def can_recv_def Take_def NewConnectionRequest_def

lemma dispatch_outcome_below_select_limit:
  assumes "r \<in> set rs" and "now r0 + GetTimeout cfg \<le> now r" and "length (pools s) < 65536"
  shows "\<exists>res. dispatch_request cfg (r0 # rs) s (NewConnectionRequest t) = Some res \<and>
           (connection (request res) = [Close] \<or>
            (\<exists>c. connection (request res) = [Send c, Close]))"
proof -
  from scan_total[OF assms(1,2)] obtain res0 where
    r: "scan (now r0 + GetTimeout cfg) rs s (NewConnectionRequest t) = Some res0" by blast
  from scan_no_crash[OF r assms(3)] have nc: "outcome res0 \<noteq> Crashed" .
  from scan_log[OF r] have
    "connection (request res0) = [] \<or> (\<exists>c. connection (request res0) = [Send c])"
    by (auto simp: NewConnectionRequest_def)
  then show ?thesis using r nc by (auto simp: dispatch_request_def)
qed

lemma dispatch_request_crash:
  assumes "65536 \<le> length (pools s)" and "now r1 < now r0 + GetTimeout cfg"
  shows "dispatch_request cfg (r0 # r1 # rs) s req =
           Some \<lparr> outcome = Crashed, finished = now r1, rest = rs, server = s, request = req \<rparr>"
  using assms by (auto simp: dispatch_request_def Select_def scan.simps(2))

text \<open>
  Claim C2. Every request the dispatcher consumes should get exactly one outcome on its
  channel, and the channel should never be left open. With 65536 registered pools (each
  with one Idle connection on offer) the dispatcher builds 65537 select cases:
  \<^verbatim>\<open>reflect.Select\<close> panics, the goroutine dies inside loop \<^verbatim>\<open>L\<close>, and the request's
  channel has seen no send and no close. Below that limit the claim holds (lemma
  \<open>dispatch_outcome_below_select_limit\<close>).
\<close>

theorem dispatcher_crashes_at_select_limit:
  "dispatch_request \<lparr> SecretKey = ''k'', Timeout = 10 \<rparr>
      [\<lparr> now = 0, pick = 0 \<rparr>, \<lparr> now = 1, pick = 0 \<rparr>]
      \<lparr> pools = map (\<lambda>i. \<lparr> pool_id = replicate i CHR ''a'', pool_size = 1, connections = [i],
                                  idle = \<lparr> pending = [i], chan_closed = False \<rparr> \<rparr>) [0..<65536],
              conns = (\<lambda>_. \<lparr> status = Idle \<rparr>), next_conn = 65536, done_closed = False,
              dispatcher_sendq = [], dispatcher_closed = False, sender_panics = [] \<rparr>
      (NewConnectionRequest 10)
   = Some \<lparr> outcome = Crashed, finished = 1, rest = [],
            server = \<lparr> pools = map (\<lambda>i. \<lparr> pool_id = replicate i CHR ''a'', pool_size = 1, connections = [i],
                                  idle = \<lparr> pending = [i], chan_closed = False \<rparr> \<rparr>) [0..<65536],
              conns = (\<lambda>_. \<lparr> status = Idle \<rparr>), next_conn = 65536, done_closed = False,
              dispatcher_sendq = [], dispatcher_closed = False, sender_panics = [] \<rparr>,
            request = \<lparr> connection = [] \<rparr> \<rparr>"
  by (simp add: dispatch_request_def scan.simps(2) Select_def GetTimeout_def NewConnectionRequest_def)

text \<open>
  Claim C3. A delivered connection was successfully taken: if serving a new request sends
  connection \<open>c\<close>, then \<open>c\<close> was received from an idle channel, \<^verbatim>\<open>Take\<close> on \<open>c\<close> returned
  true (on the store the request started with, which no failed attempt changed) and \<open>c\<close>
  is Busy afterwards. And an iteration that receives a connection on which \<^verbatim>\<open>Take\<close>
  returns false sends nothing: the value is gone from the channel and the loop goes round
  again.
\<close>

theorem delivered_connection_was_taken:
  "(dispatch_request cfg rs s (NewConnectionRequest t) = Some res \<and>
      Send c \<in> set (connection (request res)) \<longrightarrow>
        outcome res = Matched c \<and> connection (request res) = [Send c, Close] \<and>
        c \<in> tokens (pools s) \<and> Take c (conns s) = (True, conns (server res)) \<and>
        status (conns (server res) c) = Busy) \<and>
   (now r < deadline \<and> pools s \<noteq> [] \<and> Select (pick r) (pools s) = Some (Some c', ps) \<and>
      fst (Take c' (conns s)) = False \<longrightarrow>
        scan deadline (r # rs') s req = scan deadline rs' (s\<lparr> pools := ps \<rparr>) req)"
proof (intro conjI impI)
  assume a: "dispatch_request cfg rs s (NewConnectionRequest t) = Some res \<and>
      Send c \<in> set (connection (request res))"
  then obtain r0 rs0 where rs: "rs = r0 # rs0" by (cases rs) (auto simp: dispatch_request_def)
  from a[unfolded rs dispatch_request_Some] obtain res0 where
    r: "scan (now r0 + GetTimeout cfg) rs0 s (NewConnectionRequest t) = Some res0"
    and e0: "res = (if outcome res0 = Crashed then res0
                   else res0\<lparr> request := (request res0)\<lparr> connection := connection (request res0) @ [Close] \<rparr> \<rparr>)"
    by blast
  from a e0 have m: "Send c \<in> set (connection (request res0))" by (simp split: if_splits)
  from scan_log[OF r] m have o: "outcome res0 = Matched c" "connection (request res0) = [Send c]"
    by (auto simp: NewConnectionRequest_def)
  from e0 o have e: "res = res0\<lparr> request := (request res0)\<lparr> connection := connection (request res0) @ [Close] \<rparr> \<rparr>"
    by simp
  from scan_conns[OF r] o have tk: "Take c (conns s) = (True, conns (server res0))" by simp
  from Take_True[of c "conns s"] tk have "status (conns (server res0) c) = Busy" by simp
  with o tk scan_token[OF r o(1)] e
  show "outcome res = Matched c" "connection (request res) = [Send c, Close]"
    "c \<in> tokens (pools s)" "Take c (conns s) = (True, conns (server res))"
    "status (conns (server res) c) = Busy" by simp_all
next
  assume "now r < deadline \<and> pools s \<noteq> [] \<and> Select (pick r) (pools s) = Some (Some c', ps) \<and>
      fst (Take c' (conns s)) = False"
  then show "scan deadline (r # rs') s req = scan deadline rs' (s\<lparr> pools := ps \<rparr>) req"
    using Take_False[of c' "conns s"] by (simp add: split_beta scan.simps(2))
qed

theorem delivered_connection_was_taken_witness:
  "(let s = \<lparr> pools = [\<lparr> pool_id = ''A'', pool_size = 1, connections = [0, 1],
                        idle = \<lparr> pending = [0, 1], chan_closed = False \<rparr> \<rparr>],
              conns = (\<lambda>c. \<lparr> status = (if c = 1 then Idle else Busy) \<rparr>), next_conn = 2, done_closed = False,
              dispatcher_sendq = [], dispatcher_closed = False, sender_panics = [] \<rparr>;
        res = the (dispatch_request \<lparr> SecretKey = ''k'', Timeout = 10 \<rparr>
                [\<lparr> now = 0, pick = 0 \<rparr>, \<lparr> now = 1, pick = 0 \<rparr>, \<lparr> now = 2, pick = 0 \<rparr>] s
                (NewConnectionRequest 10))
    in connection (request res) = [Send 1, Close] \<and> 1 \<in> tokens (pools s) \<and>
       status (conns s 1) = Idle \<and> status (conns (server res) 1) = Busy)"
proof -
  let ?s = "\<lparr> pools = [\<lparr> pool_id = ''A'', pool_size = 1, connections = [0, 1],
                        idle = \<lparr> pending = [0, 1], chan_closed = False \<rparr> \<rparr>],
              conns = (\<lambda>c. \<lparr> status = (if c = 1 then Idle else Busy) \<rparr>), next_conn = 2, done_closed = False,
              dispatcher_sendq = [], dispatcher_closed = False, sender_panics = [] \<rparr>"
  let ?cfg = "\<lparr> SecretKey = ''k'', Timeout = 10 \<rparr>"
  let ?rs = "[\<lparr> now = 0, pick = 0 \<rparr>, \<lparr> now = 1, pick = 0 \<rparr>, \<lparr> now = 2, pick = 0 \<rparr>]"
  let ?res = "the (dispatch_request ?cfg ?rs ?s (NewConnectionRequest 10))"
  have a: "dispatch_request ?cfg ?rs ?s (NewConnectionRequest 10) = Some ?res \<and>
           Send 1 \<in> set (connection (request ?res))"
    by (simp add: ev)
  have b: "now \<lparr> now = 1, pick = 0 \<rparr> < 10 \<and> pools ?s \<noteq> [] \<and>
           Select (pick \<lparr> now = 1, pick = 0 \<rparr>) (pools ?s) =
             Some (Some 0, [\<lparr> pool_id = ''A'', pool_size = 1, connections = [0, 1],
                        idle = \<lparr> pending = [1], chan_closed = False \<rparr> \<rparr>]) \<and>
           fst (Take 0 (conns ?s)) = False"
    by (simp add: ev)
  from delivered_connection_was_taken[of ?cfg ?rs ?s 10 ?res 1 "\<lparr> now = 1, pick = 0 \<rparr>" 10 0
      "[\<lparr> pool_id = ''A'', pool_size = 1, connections = [0, 1],
                        idle = \<lparr> pending = [1], chan_closed = False \<rparr> \<rparr>]" "[]" "NewConnectionRequest 10"] a b
  have "connection (request ?res) = [Send 1, Close] \<and> 1 \<in> tokens (pools ?s) \<and>
        Take 1 (conns ?s) = (True, conns (server ?res)) \<and> status (conns (server ?res) 1) = Busy"
    by blast
  then show ?thesis unfolding Let_def by simp
qed

text \<open>
  Claim C4. With an empty pool list a new request resolves as Unavailable in the first
  iteration of the loop, before the deadline: the channel is closed with no connection
  and the server is unchanged. The handler itself answers with a proxy error and submits
  nothing when it sees an empty pool list.
\<close>

theorem no_pools_resolves_unavailable_at_once:
  assumes "pools s = []" and "now r1 < now r0 + GetTimeout cfg"
  shows "dispatch_request cfg (r0 # r1 # rs) s (NewConnectionRequest t) =
           Some \<lparr> outcome = Unavailable, finished = now r1, rest = rs, server = s,
                  request = \<lparr> connection = [Close] \<rparr> \<rparr> \<and>
         (\<exists>msg. Request cfg pr s = (Proxy_Error msg, s))"
  using assms by (simp add: dispatch_request_def scan.simps(2) NewConnectionRequest_def Request_def)

theorem no_pools_resolves_unavailable_at_once_witness:
  "dispatch_request \<lparr> SecretKey = ''k'', Timeout = 10 \<rparr>
      [\<lparr> now = 0, pick = 0 \<rparr>, \<lparr> now = 0, pick = 0 \<rparr>] (NewServer (\<lambda>_. \<lparr> status = Closed \<rparr>))
      (NewConnectionRequest 10)
    = Some \<lparr> outcome = Unavailable, finished = 0, rest = [],
             server = NewServer (\<lambda>_. \<lparr> status = Closed \<rparr>), request = \<lparr> connection = [Close] \<rparr> \<rparr>"
proof -
  have h1: "pools (NewServer (\<lambda>_. \<lparr> status = Closed \<rparr>)) = []" by (simp add: NewServer_def)
  have h2: "now \<lparr> now = 0, pick = 0 \<rparr>
              < now \<lparr> now = 0, pick = 0 \<rparr> + GetTimeout \<lparr> SecretKey = ''k'', Timeout = 10 \<rparr>"
    by (simp add: GetTimeout_def)
  from no_pools_resolves_unavailable_at_once[OF h1 h2, of "[]" 10]
  show ?thesis by simp
qed



text \<open>
  Claim C6 says that the deadline runs from the moment the handler submits the request.
  It does not: \<^verbatim>\<open>NewConnectionRequest\<close> drops its timeout argument, and the deadline is
  fixed by \<^verbatim>\<open>context.WithTimeout\<close> when the dispatcher receives the request. Two requests
  wait on the dispatcher channel before the clock reads 0, the timeout is 10, the only
  connection is Busy: the first request times out at 10, the second is received at 10
  and times out at 20.
\<close>

theorem deadline_not_from_submission_counterexample:
  "dispatcher_sendq (snd (Request \<lparr> SecretKey = ''k'', Timeout = 10 \<rparr> \<lparr> destination = ''http://example.com/'', url_ok = True \<rparr>
       (snd (Request \<lparr> SecretKey = ''k'', Timeout = 10 \<rparr> \<lparr> destination = ''http://example.com/'', url_ok = True \<rparr>
          \<lparr> pools = [\<lparr> pool_id = ''A'', pool_size = 1, connections = [0],
                      idle = \<lparr> pending = [], chan_closed = False \<rparr> \<rparr>],
            conns = (\<lambda>_. \<lparr> status = Busy \<rparr>), next_conn = 1, done_closed = False,
            dispatcher_sendq = [], dispatcher_closed = False, sender_panics = [] \<rparr>)))) = [NewConnectionRequest 10, NewConnectionRequest 10] \<and>
   map outcome (served (dispatchConnections \<lparr> SecretKey = ''k'', Timeout = 10 \<rparr>
      [\<lparr> now = 0, pick = 0 \<rparr>, \<lparr> now = 5, pick = 0 \<rparr>, \<lparr> now = 10, pick = 0 \<rparr>,
       \<lparr> now = 10, pick = 0 \<rparr>, \<lparr> now = 15, pick = 0 \<rparr>, \<lparr> now = 20, pick = 0 \<rparr>]
     (snd (Request \<lparr> SecretKey = ''k'', Timeout = 10 \<rparr> \<lparr> destination = ''http://example.com/'', url_ok = True \<rparr>
       (snd (Request \<lparr> SecretKey = ''k'', Timeout = 10 \<rparr> \<lparr> destination = ''http://example.com/'', url_ok = True \<rparr>
          \<lparr> pools = [\<lparr> pool_id = ''A'', pool_size = 1, connections = [0],
                      idle = \<lparr> pending = [], chan_closed = False \<rparr> \<rparr>],
            conns = (\<lambda>_. \<lparr> status = Busy \<rparr>), next_conn = 1, done_closed = False,
            dispatcher_sendq = [], dispatcher_closed = False, sender_panics = [] \<rparr>)))))) = [TimedOut, TimedOut] \<and>
   map finished (served (dispatchConnections \<lparr> SecretKey = ''k'', Timeout = 10 \<rparr>
      [\<lparr> now = 0, pick = 0 \<rparr>, \<lparr> now = 5, pick = 0 \<rparr>, \<lparr> now = 10, pick = 0 \<rparr>,
       \<lparr> now = 10, pick = 0 \<rparr>, \<lparr> now = 15, pick = 0 \<rparr>, \<lparr> now = 20, pick = 0 \<rparr>]
     (snd (Request \<lparr> SecretKey = ''k'', Timeout = 10 \<rparr> \<lparr> destination = ''http://example.com/'', url_ok = True \<rparr>
       (snd (Request \<lparr> SecretKey = ''k'', Timeout = 10 \<rparr> \<lparr> destination = ''http://example.com/'', url_ok = True \<rparr>
          \<lparr> pools = [\<lparr> pool_id = ''A'', pool_size = 1, connections = [0],
                      idle = \<lparr> pending = [], chan_closed = False \<rparr> \<rparr>],
            conns = (\<lambda>_. \<lparr> status = Busy \<rparr>), next_conn = 1, done_closed = False,
            dispatcher_sendq = [], dispatcher_closed = False, sender_panics = [] \<rparr>)))))) = [10, 20] \<and>
   \<not> (20 \<le> 0 + GetTimeout \<lparr> SecretKey = ''k'', Timeout = 10 \<rparr>)"
  by (simp add: ev dispatchConnections_def Request_def)

text \<open>
  Claim C6, amended. The deadline of a request is the clock reading at which the
  dispatcher received it plus the configured timeout, whatever timeout the handler
  passed to \<^verbatim>\<open>NewConnectionRequest\<close>. If some later reading reaches that deadline, serving
  the request returns; every iteration before its last one read the clock before the
  deadline, and it resolves as TimedOut exactly when its last iteration read the clock at
  or after the deadline.
\<close>

theorem deadline_starts_when_dispatcher_consumes:
  assumes "r \<in> set rs" and "now r0 + GetTimeout cfg \<le> now r"
  shows "\<exists>res pre x. dispatch_request cfg (r0 # rs) s (NewConnectionRequest t) = Some res \<and>
           rs = pre @ x # rest res \<and> finished res = now x \<and>
           (\<forall>y \<in> set pre. now y < now r0 + GetTimeout cfg) \<and>
           (outcome res = TimedOut \<longleftrightarrow> now r0 + GetTimeout cfg \<le> now x)"
proof -
  from scan_total[OF assms] obtain res0 where
    r: "scan (now r0 + GetTimeout cfg) rs s (NewConnectionRequest t) = Some res0" by blast
  from scan_prefix[OF r] obtain pre x where
    "rs = pre @ x # rest res0" "finished res0 = now x"
    "\<forall>y \<in> set pre. now y < now r0 + GetTimeout cfg"
    "outcome res0 = TimedOut \<longleftrightarrow> now r0 + GetTimeout cfg \<le> now x" by blast
  then show ?thesis using r by (auto simp: dispatch_request_def)
qed

theorem deadline_starts_when_dispatcher_consumes_witness:
  "\<exists>res. dispatch_request \<lparr> SecretKey = ''k'', Timeout = 10 \<rparr>
            (\<lparr> now = 7, pick = 0 \<rparr> # [\<lparr> now = 12, pick = 0 \<rparr>, \<lparr> now = 17, pick = 0 \<rparr>])
            \<lparr> pools = [\<lparr> pool_id = ''A'', pool_size = 1, connections = [0],
                      idle = \<lparr> pending = [], chan_closed = False \<rparr> \<rparr>],
            conns = (\<lambda>_. \<lparr> status = Busy \<rparr>), next_conn = 1, done_closed = False,
            dispatcher_sendq = [], dispatcher_closed = False, sender_panics = [] \<rparr>
            (NewConnectionRequest 3) = Some res \<and>
          outcome res = TimedOut \<and> finished res = 17 \<and> rest res = []"
proof -
  have h1: "\<lparr> now = 17, pick = 0 \<rparr> \<in> set [\<lparr> now = 12, pick = 0 \<rparr>, \<lparr> now = 17, pick = 0 \<rparr>]" by simp
  have h2: "now \<lparr> now = 7, pick = 0 \<rparr> + GetTimeout \<lparr> SecretKey = ''k'', Timeout = 10 \<rparr>
              \<le> now \<lparr> now = 17, pick = 0 \<rparr>" by (simp add: GetTimeout_def)
  from deadline_starts_when_dispatcher_consumes[OF h1 h2, of
      "\<lparr> pools = [\<lparr> pool_id = ''A'', pool_size = 1, connections = [0],
                      idle = \<lparr> pending = [], chan_closed = False \<rparr> \<rparr>],
            conns = (\<lambda>_. \<lparr> status = Busy \<rparr>), next_conn = 1, done_closed = False,
            dispatcher_sendq = [], dispatcher_closed = False, sender_panics = [] \<rparr>" 3]
  show ?thesis by (simp add: ev)
qed




section \<open>Properties of shutdown\<close>

lemma close_all_status:
  "status (close_all cs store c) = (if c \<in> set cs then Closed else status (store c))"
  by (simp add: close_all_def)

lemma Shutdown_Returned:
  assumes "\<not> done_closed s" and "\<not> dispatcher_closed s"
  shows "\<exists>s'. Shutdown s = Returned s' \<and> done_closed s' \<and> dispatcher_closed s' \<and>
           pools s' = [] \<and> dispatcher_sendq s' = [] \<and>
           sender_panics s' = sender_panics s @ dispatcher_sendq s \<and>
           conns s' = close_all (concat (map connections (pools s))) (conns s)"
  using assms
  by (auto simp: Shutdown_def Let_def split_beta clean_def clean_loop_filter shutdown_pools_fst
      shutdown_pools_snd filter_empty_conv Pool_IsEmpty_def)

text \<open>
  Claim C10. After shutdown every request in flight should resolve as Unavailable. A
  handler that waits to send its request on the dispatcher channel (the dispatcher being
  busy with an earlier request) panics when \<^verbatim>\<open>Shutdown\<close> closes that channel: its request
  is never served and its channel is never closed. The rest holds: the pools are shut
  down and swept, and the dispatcher leaves its loop.
\<close>

theorem Shutdown_panics_waiting_senders:
  "dispatcher_sendq (snd (Request \<lparr> SecretKey = ''k'', Timeout = 10 \<rparr> \<lparr> destination = ''http://example.com/'', url_ok = True \<rparr>
          \<lparr> pools = [\<lparr> pool_id = ''A'', pool_size = 1, connections = [0],
                      idle = \<lparr> pending = [], chan_closed = False \<rparr> \<rparr>],
            conns = (\<lambda>_. \<lparr> status = Busy \<rparr>), next_conn = 1, done_closed = False,
            dispatcher_sendq = [], dispatcher_closed = False, sender_panics = [] \<rparr>)) = [NewConnectionRequest 10] \<and>
   (case Shutdown (snd (Request \<lparr> SecretKey = ''k'', Timeout = 10 \<rparr> \<lparr> destination = ''http://example.com/'', url_ok = True \<rparr>
          \<lparr> pools = [\<lparr> pool_id = ''A'', pool_size = 1, connections = [0],
                      idle = \<lparr> pending = [], chan_closed = False \<rparr> \<rparr>],
            conns = (\<lambda>_. \<lparr> status = Busy \<rparr>), next_conn = 1, done_closed = False,
            dispatcher_sendq = [], dispatcher_closed = False, sender_panics = [] \<rparr>)) of
      Panicked s' \<Rightarrow> False
    | Returned s' \<Rightarrow>
        sender_panics s' = [\<lparr> connection = [] \<rparr>] \<and> dispatcher_sendq s' = [] \<and> pools s' = [] \<and>
        dispatchConnections \<lparr> SecretKey = ''k'', Timeout = 10 \<rparr> [] s' = \<lparr> state = Exited, final = s', served = [] \<rparr>)"
  by (simp add: Request_def NewConnectionRequest_def GetTimeout_def Shutdown_def Pool_Shutdown_def
      clean_def Pool_IsEmpty_def dispatchConnections_def)

end
